theory Spec2Isabelle
  imports Complex_Main
begin

section \<open>JavaScript values\<close>

text \<open>
  The planner (\<^verbatim>\<open>src/App.jsx\<close>) keeps its planning state in React state cells that are
  filled from user input, from \<^verbatim>\<open>localStorage\<close> and from imported JSON documents, so a
  cell can hold any JSON value. Values are modelled by the datatype below. A finite
  number is a real number (the finite doubles, idealised: the sign of zero is outside the
  model, and rounding is treated separately, in the section on rounded interpolation).
  The two infinities are values of their own: \<^verbatim>\<open>parseFloat("Infinity")\<close> and a JSON literal
  such as \<^verbatim>\<open>1e999\<close> produce them. \<^verbatim>\<open>NaN\<close> never reaches a state cell: the input handlers
  reject it and JSON has no literal for it. \<open>JUndefined\<close> is what reading a missing
  property or a hole of an array gives. An object is its list of key/value pairs, read
  with \<open>map_of\<close>.
\<close>

datatype jsval =
    JUndefined
  | JNull
  | JBool bool
  | JNum real
  | JInfinity
  | JNegInfinity
  | JStr string
  | JArr "jsval list"
  | JObj "(string \<times> jsval) list"

text \<open>
  The result of arithmetic: a real number, or \<^verbatim>\<open>NaN\<close>, which arises from \<^verbatim>\<open>0 / 0\<close> and from
  arithmetic on \<^verbatim>\<open>undefined\<close> (reading an array past its end).
\<close>

datatype jsnum = NaN | Fin real

text \<open>JavaScript's \<^verbatim>\<open><\<close> on numbers: every comparison with \<^verbatim>\<open>NaN\<close> is false.\<close>

fun js_less :: "jsnum \<Rightarrow> jsnum \<Rightarrow> bool" where
  "js_less (Fin a) (Fin b) = (a < b)"
| "js_less _ _ = False"

section \<open>Utility functions\<close>

text \<open>
  \<^verbatim>\<open>function lerp(a, b, t) { return a + (b - a) * t; }\<close>, in exact arithmetic; \<open>lerp_fp\<close>
  below is the same with every operation rounded.
\<close>

fun lerp :: "jsnum \<Rightarrow> jsnum \<Rightarrow> jsnum \<Rightarrow> jsnum" where
  "lerp (Fin a) (Fin b) (Fin t) = Fin (a + (b - a) * t)"
| "lerp _ _ _ = NaN"

text \<open>
  \<^verbatim>\<open>a[k]\<close> on an array of numbers used as an operand: the element, or \<^verbatim>\<open>undefined\<close> past
  the end, which arithmetic turns into \<^verbatim>\<open>NaN\<close>.
\<close>

definition elem :: "real list \<Rightarrow> nat \<Rightarrow> jsnum" where
  "elem a k = (if k < length a then Fin (a ! k) else NaN)"

text \<open>
  \<^verbatim>\<open>function lerpVec(a, b, t) {
    return [lerp(a[0], b[0], t), lerp(a[1], b[1], t), lerp(a[2], b[2], t)]; }\<close>
\<close>

definition lerpVec :: "real list \<Rightarrow> real list \<Rightarrow> jsnum \<Rightarrow> jsnum list" where
  "lerpVec a b t = [lerp (elem a 0) (elem b 0) t, lerp (elem a 1) (elem b 1) t, lerp (elem a 2) (elem b 2) t]"

section \<open>Checkpoints along the line\<close>

text \<open>
  A checkpoint \<^verbatim>\<open>{ x, y, z, t }\<close>; its index is its place in the array. The fields carry
  the prefix \<open>p_\<close>, the plain letters being wanted for variables.
\<close>

record point =
  p_x :: jsnum
  p_y :: jsnum
  p_z :: jsnum
  p_t :: jsnum

text \<open>
  \<^verbatim>\<open>const t = i / numCheckpoints;\<close> for the loop counter \<open>i\<close>. The loop guard
  \<^verbatim>\<open>i <= numCheckpoints\<close> lets the division by zero happen only as \<^verbatim>\<open>0 / 0\<close>, which is \<^verbatim>\<open>NaN\<close>.
\<close>

definition param :: "nat \<Rightarrow> real \<Rightarrow> jsnum" where
  "param i numCheckpoints = (if numCheckpoints = 0 then NaN else Fin (real i / numCheckpoints))"

text \<open>
  The loop body: \<^verbatim>\<open>const [x, y, z] = lerpVec(start, end, t); pts.push({ x, y, z, t });\<close>
\<close>

definition point_at :: "real list \<Rightarrow> real list \<Rightarrow> jsnum \<Rightarrow> point" where
  "point_at start endp t =
     (let v = lerpVec start endp t
      in \<lparr>p_x = v ! 0, p_y = v ! 1, p_z = v ! 2, p_t = t\<rparr>)"

definition push_point :: "real list \<Rightarrow> real list \<Rightarrow> jsnum \<Rightarrow> point list \<Rightarrow> point list" where
  "push_point start endp t pts = pts @ [point_at start endp t]"

text \<open>
  \<^verbatim>\<open>for (let i = 0; i <= numCheckpoints; i++) { ... }\<close>: the loop of \<^verbatim>\<open>linePoints\<close> from
  counter \<open>i\<close> with the points pushed so far.
\<close>

function linePoints_loop ::
  "real list \<Rightarrow> real list \<Rightarrow> real \<Rightarrow> nat \<Rightarrow> point list \<Rightarrow> point list" where
  "linePoints_loop start endp numCheckpoints i pts =
     (if real i \<le> numCheckpoints
      then linePoints_loop start endp numCheckpoints (Suc i)
             (push_point start endp (param i numCheckpoints) pts)
      else pts)"
  by pat_completeness auto
termination
proof (relation "measure (\<lambda>(start, endp, n, i, pts). nat (\<lfloor>n\<rfloor> + 1) - i)")
  fix numCheckpoints :: real and i :: nat
  assume "real i \<le> numCheckpoints"
  then have "int i \<le> \<lfloor>numCheckpoints\<rfloor>"
    by (simp add: le_floor_iff)
  then show "\<And>start endp pts. ((start, endp, numCheckpoints, Suc i,
                push_point start endp (param i numCheckpoints) pts),
              (start, endp, numCheckpoints, i, pts))
             \<in> measure (\<lambda>(start, endp, n, i, pts). nat (\<lfloor>n\<rfloor> + 1) - i)"
    by simp
qed simp

declare linePoints_loop.simps [simp del]

definition linePoints :: "real list \<Rightarrow> real list \<Rightarrow> real \<Rightarrow> point list" where
  "linePoints start endp numCheckpoints = linePoints_loop start endp numCheckpoints 0 []"

section \<open>Rounded interpolation\<close>

text \<open>
  The arithmetic of the source is that of IEEE 754 doubles: each \<^verbatim>\<open>-\<close>, \<^verbatim>\<open>*\<close>, \<^verbatim>\<open>+\<close> and \<^verbatim>\<open>/\<close>
  returns the exact result rounded to a double. The functions above compute with exact
  real numbers. To see how exact the computed end points are, the same functions follow
  once more, with the rounding of each operation as the parameter \<open>rnd\<close>; with the
  identity for \<open>rnd\<close> they are the functions above.

  \<open>fl\<close> is the rounding of doubles, to the nearest number with 53 significant bits, ties
  to the even significand, on the normal range (overflow to infinity and subnormal
  numbers are not modelled): a number \<open>x\<close> with \<open>2 ^ k \<le> \<bar>x\<bar> < 2 ^ (k + 1)\<close> is rounded to a
  multiple of \<open>2 ^ (k - 52)\<close>.
\<close>

definition binade :: "real \<Rightarrow> int" where
  "binade x = \<lfloor>log 2 \<bar>x\<bar>\<rfloor>"

definition ulp :: "real \<Rightarrow> real" where
  "ulp x = 2 powr (of_int (binade x) - 52)"

definition round_half_even :: "real \<Rightarrow> int" where
  "round_half_even r =
     (let f = \<lfloor>r\<rfloor> in
      if r - of_int f < 1 / 2 then f
      else if 1 / 2 < r - of_int f then f + 1
      else if even f then f else f + 1)"

definition fl :: "real \<Rightarrow> real" where
  "fl x = (if x = 0 then 0 else of_int (round_half_even (x / ulp x)) * ulp x)"

text \<open>
  What is asked of a rounding, whatever it does with ties: the result is a number with
  at most 53 significant bits, and no such number is nearer to the argument.
\<close>

definition representable :: "real \<Rightarrow> bool" where
  "representable x \<longleftrightarrow> (\<exists>m e :: int. \<bar>m\<bar> < 2 ^ 53 \<and> x = of_int m * 2 powr of_int e)"

definition nearest :: "(real \<Rightarrow> real) \<Rightarrow> bool" where
  "nearest rnd \<longleftrightarrow>
     (\<forall>x. representable (rnd x) \<and> (\<forall>y. representable y \<longrightarrow> \<bar>rnd x - x\<bar> \<le> \<bar>y - x\<bar>))"

text \<open>\<^verbatim>\<open>a + (b - a) * t\<close>: the difference, the product and the sum are rounded in turn.\<close>

fun lerp_fp :: "(real \<Rightarrow> real) \<Rightarrow> jsnum \<Rightarrow> jsnum \<Rightarrow> jsnum \<Rightarrow> jsnum" where
  "lerp_fp rnd (Fin a) (Fin b) (Fin t) = Fin (rnd (a + rnd (rnd (b - a) * t)))"
| "lerp_fp rnd _ _ _ = NaN"

definition lerpVec_fp ::
  "(real \<Rightarrow> real) \<Rightarrow> real list \<Rightarrow> real list \<Rightarrow> jsnum \<Rightarrow> jsnum list" where
  "lerpVec_fp rnd a b t =
     [lerp_fp rnd (elem a 0) (elem b 0) t, lerp_fp rnd (elem a 1) (elem b 1) t,
      lerp_fp rnd (elem a 2) (elem b 2) t]"

text \<open>\<^verbatim>\<open>const t = i / numCheckpoints;\<close> with the quotient rounded.\<close>

definition param_fp :: "(real \<Rightarrow> real) \<Rightarrow> nat \<Rightarrow> real \<Rightarrow> jsnum" where
  "param_fp rnd i numCheckpoints =
     (if numCheckpoints = 0 then NaN else Fin (rnd (real i / numCheckpoints)))"

definition point_at_fp ::
  "(real \<Rightarrow> real) \<Rightarrow> real list \<Rightarrow> real list \<Rightarrow> jsnum \<Rightarrow> point" where
  "point_at_fp rnd start endp t =
     (let v = lerpVec_fp rnd start endp t
      in \<lparr>p_x = v ! 0, p_y = v ! 1, p_z = v ! 2, p_t = t\<rparr>)"

text \<open>
  The loop of \<^verbatim>\<open>linePoints\<close>. The counter and the comparison \<^verbatim>\<open>i <= numCheckpoints\<close> are exact
  in doubles for every count a browser can hold.
\<close>

function linePoints_fp_loop ::
  "(real \<Rightarrow> real) \<Rightarrow> real list \<Rightarrow> real list \<Rightarrow> real \<Rightarrow> nat \<Rightarrow> point list \<Rightarrow> point list" where
  "linePoints_fp_loop rnd start endp numCheckpoints i pts =
     (if real i \<le> numCheckpoints
      then linePoints_fp_loop rnd start endp numCheckpoints (Suc i)
             (pts @ [point_at_fp rnd start endp (param_fp rnd i numCheckpoints)])
      else pts)"
  by pat_completeness auto
termination
proof (relation "measure (\<lambda>(rnd, start, endp, n, i, pts). nat (\<lfloor>n\<rfloor> + 1) - i)")
  fix numCheckpoints :: real and i :: nat
  assume "real i \<le> numCheckpoints"
  then have "int i \<le> \<lfloor>numCheckpoints\<rfloor>"
    by (simp add: le_floor_iff)
  then show "\<And>rnd start endp pts. ((rnd, start, endp, numCheckpoints, Suc i,
                pts @ [point_at_fp rnd start endp (param_fp rnd i numCheckpoints)]),
              (rnd, start, endp, numCheckpoints, i, pts))
             \<in> measure (\<lambda>(rnd, start, endp, n, i, pts). nat (\<lfloor>n\<rfloor> + 1) - i)"
    by simp
qed simp

declare linePoints_fp_loop.simps [simp del]

definition linePoints_fp ::
  "(real \<Rightarrow> real) \<Rightarrow> real list \<Rightarrow> real list \<Rightarrow> real \<Rightarrow> point list" where
  "linePoints_fp rnd start endp numCheckpoints =
     linePoints_fp_loop rnd start endp numCheckpoints 0 []"

section \<open>Progress flags\<close>

text \<open>
  Truthiness, as \<^verbatim>\<open>Boolean(v)\<close>, \<^verbatim>\<open>!v\<close>, \<^verbatim>\<open>if (v)\<close>, \<^verbatim>\<open>&&\<close> and \<^verbatim>\<open>||\<close> test it
  (there is no \<^verbatim>\<open>NaN\<close> among the values of a state cell).
\<close>

fun truthy :: "jsval \<Rightarrow> bool" where
  "truthy JUndefined = False"
| "truthy JNull = False"
| "truthy (JBool b) = b"
| "truthy (JNum n) = (n \<noteq> 0)"
| "truthy JInfinity = True"
| "truthy JNegInfinity = True"
| "truthy (JStr s) = (s \<noteq> [])"
| "truthy (JArr xs) = True"
| "truthy (JObj kvs) = True"

text \<open>
  The effect that realigns the flags with the checkpoints:
  \<^verbatim>\<open>setDone((prev) => {
    const n = linePoints.length;
    const out = new Array(n).fill(false);
    for (let i = 0; i < Math.min(prev.length, n); i++) out[i] = prev[i];
    return out; });\<close>
  Every write \<^verbatim>\<open>out[i] = prev[i]\<close> of the loop is in range of both arrays.
\<close>

function reconcile_loop :: "jsval list \<Rightarrow> nat \<Rightarrow> nat \<Rightarrow> jsval list \<Rightarrow> jsval list" where
  "reconcile_loop prev n i out =
     (if i < min (length prev) n
      then reconcile_loop prev n (Suc i) (out[i := prev ! i])
      else out)"
  by pat_completeness auto
termination
  by (relation "measure (\<lambda>(prev, n, i, out). min (length prev) n - i)") auto

declare reconcile_loop.simps [simp del]

definition reconcile :: "jsval list \<Rightarrow> nat \<Rightarrow> jsval list" where
  "reconcile prev n = reconcile_loop prev n 0 (replicate n (JBool False))"

text \<open>
  The checkbox of row \<open>i\<close>:
  \<^verbatim>\<open>setDone((d) => { const copy = [...d]; copy[i] = e.target.checked; return copy; })\<close>.
  A write past the end extends the array, the skipped places reading as \<^verbatim>\<open>undefined\<close>.
\<close>

definition toggle :: "jsval list \<Rightarrow> nat \<Rightarrow> bool \<Rightarrow> jsval list" where
  "toggle d i checked =
     (if i < length d then d[i := JBool checked]
      else d @ replicate (i - length d) JUndefined @ [JBool checked])"

text \<open>\<^verbatim>\<open>const completedCount = done.filter(Boolean).length;\<close>\<close>

definition completedCount :: "jsval list \<Rightarrow> nat" where
  "completedCount dn = length (filter truthy dn)"

text \<open>
  \<^verbatim>\<open>const progress = linePoints.length > 1
     ? (completedCount / (linePoints.length - 1)) * 100 : 0;\<close>
\<close>

definition progress :: "jsval list \<Rightarrow> point list \<Rightarrow> real" where
  "progress dn pts =
     (if length pts > 1
      then (real (completedCount dn) / (real (length pts) - 1)) * 100
      else 0)"

text \<open>\<^verbatim>\<open>Array.prototype.findIndex\<close>: the first index whose element satisfies the test;
  \<open>None\<close> stands for the result \<^verbatim>\<open>-1\<close>.\<close>

fun findIndex :: "('a \<Rightarrow> bool) \<Rightarrow> 'a list \<Rightarrow> nat option" where
  "findIndex P [] = None"
| "findIndex P (v # vs) =
     (if P v then Some 0 else map_option Suc (findIndex P vs))"

text \<open>\<^verbatim>\<open>arr[i]\<close> as a value: \<open>None\<close> stands for \<^verbatim>\<open>undefined\<close>, read past the end.\<close>

definition index :: "'a list \<Rightarrow> nat \<Rightarrow> 'a option" where
  "index xs i = (if i < length xs then Some (xs ! i) else None)"

text \<open>
  \<^verbatim>\<open>const idx = done.findIndex((v) => !v);
  if (idx === -1) return linePoints[linePoints.length - 1];
  return linePoints[idx];\<close>
  With no checkpoints, \<^verbatim>\<open>linePoints[-1]\<close> is \<^verbatim>\<open>undefined\<close>.
\<close>

definition currentPoint :: "jsval list \<Rightarrow> point list \<Rightarrow> point option" where
  "currentPoint dn pts =
     (case findIndex (\<lambda>v. \<not> truthy v) dn of
        None \<Rightarrow> (if pts = [] then None else index pts (length pts - 1))
      | Some idx \<Rightarrow> index pts idx)"

section \<open>The planning state\<close>

record state =
  radius :: jsval
  start :: jsval
  endp :: jsval
  numCheckpoints :: jsval
  stateKey :: string
  doneFlags :: jsval

text \<open>The \<^verbatim>\<open>useState\<close> defaults.\<close>

definition initial_state :: state where
  "initial_state =
     \<lparr>radius = JNum 500,
      start = JArr [JNum 0, JNum 0, JNum 0],
      endp = JArr [JNum 400, JNum 50, JNum (- 300)],
      numCheckpoints = JNum 50,
      stateKey = ''nms-line-state-v1'',
      doneFlags = JArr []\<rparr>"

text \<open>\<^verbatim>\<open>a || b\<close> and \<^verbatim>\<open>a ?? b\<close>.\<close>

definition js_or :: "jsval \<Rightarrow> jsval \<Rightarrow> jsval" where
  "js_or a b = (if truthy a then a else b)"

definition nullish :: "jsval \<Rightarrow> jsval \<Rightarrow> jsval" where
  "nullish a b = (if a = JUndefined \<or> a = JNull then b else a)"

text \<open>
  \<^verbatim>\<open>obj.key\<close> for the keys the planner reads (\<^verbatim>\<open>start\<close>, \<^verbatim>\<open>end\<close>, \<^verbatim>\<open>numCheckpoints\<close>,
  \<^verbatim>\<open>radius\<close>, \<^verbatim>\<open>done\<close>): a TypeError (\<open>None\<close>) on \<^verbatim>\<open>null\<close> and \<^verbatim>\<open>undefined\<close>, the stored
  value of an object, and \<^verbatim>\<open>undefined\<close> for a missing key and for every other kind of
  value (numbers, strings, booleans and arrays have none of these properties).
\<close>

fun get_prop :: "jsval \<Rightarrow> string \<Rightarrow> jsval option" where
  "get_prop JUndefined k = None"
| "get_prop JNull k = None"
| "get_prop (JObj kvs) k = Some (case map_of kvs k of None \<Rightarrow> JUndefined | Some v \<Rightarrow> v)"
| "get_prop v k = Some JUndefined"

text \<open>
  Reading \<^verbatim>\<open>obj.key\<close> inside a \<^verbatim>\<open>try\<close> block: when the read throws, control goes to the
  handler, whose outcome is \<open>thrown\<close>; otherwise the block continues with the value.
\<close>

definition reading :: "jsval \<Rightarrow> string \<Rightarrow> 'r \<Rightarrow> (jsval \<Rightarrow> 'r) \<Rightarrow> 'r" where
  "reading obj k thrown cont = (case get_prop obj k of None \<Rightarrow> thrown | Some v \<Rightarrow> cont v)"

text \<open>
  The memo \<^verbatim>\<open>linePoints\<close> of a state whose \<^verbatim>\<open>start\<close> and \<^verbatim>\<open>end\<close> are arrays of numbers and
  whose \<^verbatim>\<open>numCheckpoints\<close> is a number. On other states the loop runs on coerced strings,
  booleans and objects, which this development does not model (\<open>None\<close>).
\<close>

fun nums_of :: "jsval list \<Rightarrow> real list option" where
  "nums_of [] = Some []"
| "nums_of (JNum r # vs) = map_option ((#) r) (nums_of vs)"
| "nums_of (v # vs) = None"

definition linePoints_state :: "state \<Rightarrow> point list option" where
  "linePoints_state st =
     (case (start st, endp st, numCheckpoints st) of
        (JArr a, JArr b, JNum n) \<Rightarrow>
          (case (nums_of a, nums_of b) of
             (Some a', Some b') \<Rightarrow> Some (linePoints a' b' n)
           | _ \<Rightarrow> None)
      | _ \<Rightarrow> None)"

section \<open>Editing the number of checkpoints\<close>

text \<open>
  \<^verbatim>\<open>onChange={(e) => setNumCheckpoints(Math.max(1, parseInt(e.target.value) || 1))}\<close>.
  The argument is the result of \<^verbatim>\<open>parseInt\<close>: an integer or \<^verbatim>\<open>NaN\<close>.
\<close>

definition onChange_numCheckpoints :: "jsnum \<Rightarrow> state \<Rightarrow> state" where
  "onChange_numCheckpoints parsed st =
     st\<lparr>numCheckpoints :=
          JNum (max 1 (case parsed of NaN \<Rightarrow> 1 | Fin k \<Rightarrow> if k = 0 then 1 else k))\<rparr>"

section \<open>Persistence\<close>

text \<open>
  \<^verbatim>\<open>JSON.parse\<close> and \<^verbatim>\<open>JSON.stringify\<close> are built-ins of the platform. The handlers take
  them as parameters: \<open>parse text\<close> is \<open>None\<close> when \<^verbatim>\<open>JSON.parse(text)\<close> throws a
  SyntaxError, and the parsed value otherwise. The import and export handlers only hand
  the text on, so they work for any representation \<open>'t\<close> of texts. \<^verbatim>\<open>localStorage\<close> is a map
  from keys to strings; \<^verbatim>\<open>getItem\<close> of a missing key is \<^verbatim>\<open>null\<close> (\<open>None\<close>).
\<close>

type_synonym 't parser = "'t \<Rightarrow> jsval option"
type_synonym storage = "string \<Rightarrow> string option"

text \<open>
  The load effect:
  \<^verbatim>\<open>const saved = localStorage.getItem(stateKey);
  if (saved) {
    try {
      const obj = JSON.parse(saved);
      if (obj.start && obj.end && obj.numCheckpoints) {
        setStart(obj.start); setEnd(obj.end); setNumCheckpoints(obj.numCheckpoints);
        setRadius(obj.radius ?? 500); setDone(obj.done ?? []);
      }
    } catch {}
  }\<close>
  The state is threaded through the setters one by one, so that an exception in the
  middle of the block would leave the setters before it applied.
\<close>

definition load_body :: "jsval \<Rightarrow> state \<Rightarrow> state" where
  "load_body obj st =
     reading obj ''start'' st (\<lambda>s. if \<not> truthy s then st else
     reading obj ''end'' st (\<lambda>e. if \<not> truthy e then st else
     reading obj ''numCheckpoints'' st (\<lambda>n. if \<not> truthy n then st else
     reading obj ''start'' st (\<lambda>s. let st1 = st\<lparr>start := s\<rparr> in
     reading obj ''end'' st1 (\<lambda>e. let st2 = st1\<lparr>endp := e\<rparr> in
     reading obj ''numCheckpoints'' st2 (\<lambda>n. let st3 = st2\<lparr>numCheckpoints := n\<rparr> in
     reading obj ''radius'' st3 (\<lambda>r. let st4 = st3\<lparr>radius := nullish r (JNum 500)\<rparr> in
     reading obj ''done'' st4 (\<lambda>d. st4\<lparr>doneFlags := nullish d (JArr [])\<rparr>))))))))"

definition load :: "string parser \<Rightarrow> storage \<Rightarrow> state \<Rightarrow> state" where
  "load parse store st =
     (case store (stateKey st) of
        None \<Rightarrow> st
      | Some saved \<Rightarrow>
          if saved = [] then st
          else (case parse saved of None \<Rightarrow> st | Some obj \<Rightarrow> load_body obj st))"

section \<open>Import and export\<close>



text \<open>
  \<^verbatim>\<open>reader.onload = () => {
    try {
      const obj = JSON.parse(reader.result);
      if (obj.start && obj.end) {
        setStart(obj.start); setEnd(obj.end);
        setNumCheckpoints(obj.numCheckpoints || 50);
        setRadius(obj.radius || 500); setDone(obj.done || []);
      }
    } catch (err) { alert("Invalid JSON"); }
  };\<close>
  The result is the new state and the text of the alert, if one is shown.
\<close>

definition import_body :: "jsval \<Rightarrow> state \<Rightarrow> state \<times> string option" where
  "import_body obj st =
     reading obj ''start'' (st, Some ''Invalid JSON'') (\<lambda>s. if \<not> truthy s then (st, None) else
     reading obj ''end'' (st, Some ''Invalid JSON'') (\<lambda>e. if \<not> truthy e then (st, None) else
     reading obj ''start'' (st, Some ''Invalid JSON'') (\<lambda>s. let st1 = st\<lparr>start := s\<rparr> in
     reading obj ''end'' (st1, Some ''Invalid JSON'') (\<lambda>e. let st2 = st1\<lparr>endp := e\<rparr> in
     reading obj ''numCheckpoints'' (st2, Some ''Invalid JSON'')
       (\<lambda>n. let st3 = st2\<lparr>numCheckpoints := js_or n (JNum 50)\<rparr> in
     reading obj ''radius'' (st3, Some ''Invalid JSON'')
       (\<lambda>r. let st4 = st3\<lparr>radius := js_or r (JNum 500)\<rparr> in
     reading obj ''done'' (st4, Some ''Invalid JSON'')
       (\<lambda>d. (st4\<lparr>doneFlags := js_or d (JArr [])\<rparr>, None))))))))"

definition onload :: "'t parser \<Rightarrow> 't \<Rightarrow> state \<Rightarrow> state \<times> string option" where
  "onload parse result st =
     (case parse result of
        None \<Rightarrow> (st, Some ''Invalid JSON'')
      | Some obj \<Rightarrow> import_body obj st)"

text \<open>
  \<^verbatim>\<open>const file = e.target.files?.[0]; if (!file) return; ... reader.readAsText(file);\<close>
  The argument \<open>file\<close> is the text of the chosen file, if one was chosen.
\<close>

definition handleImportJSON ::
  "'t parser \<Rightarrow> 't option \<Rightarrow> state \<Rightarrow> state \<times> string option" where
  "handleImportJSON parse file st =
     (case file of None \<Rightarrow> (st, None) | Some text \<Rightarrow> onload parse text st)"

section \<open>The JSON built-ins\<close>







section \<open>Applying a document as a whole\<close>

text \<open>
  The value of \<^verbatim>\<open>obj.key\<close> when the read does not throw; \<^verbatim>\<open>undefined\<close> otherwise.
\<close>

definition field :: "jsval \<Rightarrow> string \<Rightarrow> jsval" where
  "field obj k = (case get_prop obj k of None \<Rightarrow> JUndefined | Some v \<Rightarrow> v)"

text \<open>
  What the import is specified to do when it applies a document: all five cells are
  set from it, with the defaults of the import. This is the reference the handler is
  compared with; it is not used by the handler.
\<close>

definition imported :: "jsval \<Rightarrow> state \<Rightarrow> state" where
  "imported obj st =
     st\<lparr>start := field obj ''start'',
        endp := field obj ''end'',
        numCheckpoints := js_or (field obj ''numCheckpoints'') (JNum 50),
        radius := js_or (field obj ''radius'') (JNum 500),
        doneFlags := js_or (field obj ''done'') (JArr [])\<rparr>"

text \<open>The same for a successful load, with the defaults of the load.\<close>

definition loaded :: "jsval \<Rightarrow> state \<Rightarrow> state" where
  "loaded obj st =
     st\<lparr>start := field obj ''start'',
        endp := field obj ''end'',
        numCheckpoints := field obj ''numCheckpoints'',
        radius := nullish (field obj ''radius'') (JNum 500),
        doneFlags := nullish (field obj ''done'') (JArr [])\<rparr>"

section \<open>Properties of the checkpoint sequence\<close>

lemma linePoints_loop_map:
  "linePoints_loop a b n i pts =
     pts @ map (\<lambda>k. point_at a b (param k n)) [i..<nat (\<lfloor>n\<rfloor> + 1)]"
proof (induction a b n i pts rule: linePoints_loop.induct)
  case (1 a b n i pts)
  show ?case
  proof (cases "real i \<le> n")
    case True
    then have "int i \<le> \<lfloor>n\<rfloor>" by (simp add: le_floor_iff)
    then have lt: "i < nat (\<lfloor>n\<rfloor> + 1)" by linarith
    from True 1 lt show ?thesis
      by (subst linePoints_loop.simps) (simp add: push_point_def upt_conv_Cons)
  next
    case False
    then have "\<not> int i \<le> \<lfloor>n\<rfloor>" by (simp add: le_floor_iff)
    then have "nat (\<lfloor>n\<rfloor> + 1) \<le> i" by linarith
    with False show ?thesis
      by (subst linePoints_loop.simps) simp
  qed
qed

lemma linePoints_map:
  "linePoints a b n = map (\<lambda>k. point_at a b (param k n)) [0..<nat (\<lfloor>n\<rfloor> + 1)]"
  by (simp add: linePoints_def linePoints_loop_map)

lemma linePoints_count:
  "linePoints a b (real c) = map (\<lambda>k. point_at a b (param k (real c))) [0..<Suc c]"
proof -
  have "nat (\<lfloor>real c\<rfloor> + 1) = Suc c" by simp
  then show ?thesis by (simp only: linePoints_map)
qed

lemma p_t_point_at: "p_t (point_at a b t) = t"
  by (simp add: point_at_def Let_def)

lemma linePoints_example:
  "linePoints [0, 0, 0] [400, 50, - 300] 2 =
     [\<lparr>p_x = Fin 0, p_y = Fin 0, p_z = Fin 0, p_t = Fin 0\<rparr>,
      \<lparr>p_x = Fin 200, p_y = Fin 25, p_z = Fin (- 150), p_t = Fin (1 / 2)\<rparr>,
      \<lparr>p_x = Fin 400, p_y = Fin 50, p_z = Fin (- 300), p_t = Fin 1\<rparr>]"
  by (simp add: linePoints_def linePoints_loop.simps push_point_def point_at_def
      lerpVec_def elem_def param_def)

text \<open>
  Claim C6. For a count \<open>c \<ge> 1\<close>, \<^verbatim>\<open>linePoints\<close> holds exactly \<open>c + 1\<close> checkpoints; the
  checkpoint at index \<open>i\<close> is the interpolation at parameter \<open>t = i / c\<close>; the parameters
  are strictly increasing along the array (whose indices are the checkpoints' indices),
  starting at 0 and ending at 1.
\<close>

theorem linePoints_parameters:
  assumes "1 \<le> c"
  shows "length (linePoints a b (real c)) = c + 1
       \<and> (\<forall>i\<le>c. linePoints a b (real c) ! i = point_at a b (Fin (real i / real c))
               \<and> p_t (linePoints a b (real c) ! i) = Fin (real i / real c))
       \<and> sorted_wrt (\<lambda>p q. js_less (p_t p) (p_t q)) (linePoints a b (real c))
       \<and> p_t (hd (linePoints a b (real c))) = Fin 0
       \<and> p_t (last (linePoints a b (real c))) = Fin 1"
proof -
  from assms have c: "real c \<noteq> 0" "0 < real c" by simp_all
  have par: "param k (real c) = Fin (real k / real c)" for k
    using c by (simp add: param_def)
  have eq: "linePoints a b (real c) = map (\<lambda>k. point_at a b (Fin (real k / real c))) [0..<Suc c]"
    by (simp only: linePoints_count par)
  have len: "length (linePoints a b (real c)) = c + 1"
    by (simp add: eq)
  have nth: "linePoints a b (real c) ! i = point_at a b (Fin (real i / real c))" if "i \<le> c" for i
  proof -
    from that have "i < length [0..<Suc c]" by simp
    then have "map (\<lambda>k. point_at a b (Fin (real k / real c))) [0..<Suc c] ! i
        = point_at a b (Fin (real ([0..<Suc c] ! i) / real c))"
      by (rule nth_map)
    also from that have "[0..<Suc c] ! i = i"
      by (metis add_0 le_imp_less_Suc nth_upt)
    finally show ?thesis by (simp only: eq)
  qed
  have mono: "sorted_wrt (\<lambda>p q. js_less (p_t p) (p_t q)) (linePoints a b (real c))"
  proof -
    have "sorted_wrt (\<lambda>i j. js_less (Fin (real i / real c)) (Fin (real j / real c))) [0..<Suc c]"
    proof (rule sorted_wrt_mono_rel [OF _ sorted_wrt_upt])
      fix i j :: nat
      assume "i < j"
      with c show "js_less (Fin (real i / real c)) (Fin (real j / real c))"
        by (simp add: divide_strict_right_mono)
    qed
    then show ?thesis
      by (simp only: eq sorted_wrt_map p_t_point_at)
  qed
  have first: "p_t (hd (linePoints a b (real c))) = Fin 0"
    by (simp add: eq p_t_point_at upt_conv_Cons del: upt_Suc)
  have lst: "p_t (last (linePoints a b (real c))) = Fin 1"
    using c by (simp add: eq p_t_point_at)
  from len nth mono first lst show ?thesis
    by (simp add: p_t_point_at)
qed

theorem linePoints_parameters_witness:
  "(1::nat) \<le> 2
   \<and> length (linePoints [0, 0, 0] [400, 50, - 300] 2) = 3
   \<and> p_t (linePoints [0, 0, 0] [400, 50, - 300] 2 ! 1) = Fin (1 / 2)
   \<and> linePoints [0, 0, 0] [400, 50, - 300] 2 ! 1
       = \<lparr>p_x = Fin 200, p_y = Fin 25, p_z = Fin (- 150), p_t = Fin (1 / 2)\<rparr>
   \<and> p_t (last (linePoints [0, 0, 0] [400, 50, - 300] 2)) = Fin 1"
proof -
  have h: "(1::nat) \<le> 2" by simp
  have two: "real (2::nat) = 2" by simp
  have pt: "point_at [0, 0, 0] [400, 50, - 300] (Fin (1 / 2))
     = \<lparr>p_x = Fin 200, p_y = Fin 25, p_z = Fin (- 150), p_t = Fin (1 / 2)\<rparr>"
    by (simp add: point_at_def lerpVec_def elem_def)
  from linePoints_parameters [OF h, of "[0, 0, 0]" "[400, 50, - 300]"] pt
  show ?thesis
    by (simp add: two)
qed

section \<open>Properties of the rounded checkpoint sequence\<close>

lemma lerp_fp_exact: "lerp_fp (\<lambda>x. x) a b t = lerp a b t"
  by (cases a; cases b; cases t) simp_all

lemma linePoints_fp_loop_exact:
  "linePoints_fp_loop (\<lambda>x. x) a b n i pts = linePoints_loop a b n i pts"
proof (induction a b n i pts rule: linePoints_loop.induct)
  case (1 a b n i pts)
  have pt: "point_at_fp (\<lambda>x. x) a b (param_fp (\<lambda>x. x) i n) = point_at a b (param i n)"
    by (simp add: point_at_fp_def point_at_def lerpVec_fp_def lerpVec_def lerp_fp_exact
        param_fp_def param_def)
  show ?case
  proof (cases "real i \<le> n")
    case True
    with 1 show ?thesis
      by (subst linePoints_fp_loop.simps, subst linePoints_loop.simps)
         (simp add: pt push_point_def)
  next
    case False
    then show ?thesis
      by (subst linePoints_fp_loop.simps, subst linePoints_loop.simps) simp
  qed
qed

lemma linePoints_fp_exact: "linePoints_fp (\<lambda>x. x) a b n = linePoints a b n"
  by (simp add: linePoints_fp_def linePoints_def linePoints_fp_loop_exact)

lemma binade_eqI:
  assumes "2 powr of_int k \<le> \<bar>x\<bar>" and "\<bar>x\<bar> < 2 powr (of_int k + 1)"
  shows "binade x = k"
proof -
  have pos: "0 < \<bar>x\<bar>"
    using assms(1) by (smt (verit) powr_gt_zero)
  have "of_int k \<le> log 2 \<bar>x\<bar>"
    using assms(1) pos by (simp add: le_log_iff)
  moreover have "log 2 \<bar>x\<bar> < of_int k + 1"
    using assms(2) pos by (simp add: log_less_iff)
  ultimately show ?thesis
    unfolding binade_def by (simp add: floor_eq_iff)
qed

lemma binade_53: "9007199254740992 \<le> \<bar>x\<bar> \<Longrightarrow> \<bar>x\<bar> < 18014398509481984 \<Longrightarrow> binade x = 53"
  by (rule binade_eqI) (simp_all add: powr_realpow)

lemma ulp_53: "9007199254740992 \<le> \<bar>x\<bar> \<Longrightarrow> \<bar>x\<bar> < 18014398509481984 \<Longrightarrow> ulp x = 2"
  by (simp add: ulp_def binade_53)

lemma fl_tie: "fl (- 9999999999999999) = - 10000000000000000"
proof -
  have u: "ulp (- 9999999999999999) = 2" by (rule ulp_53) simp_all
  have f: "\<lfloor>- 9999999999999999 / (2::real)\<rfloor> = - 5000000000000000"
    by (simp add: floor_eq_iff)
  show ?thesis
    by (simp add: fl_def u round_half_even_def f Let_def)
qed

lemma fl_big: "fl (- 10000000000000000) = - 10000000000000000"
  and fl_big': "fl 10000000000000000 = 10000000000000000"
proof -
  have u: "ulp (- 10000000000000000) = 2" "ulp 10000000000000000 = 2"
    by (rule ulp_53; simp)+
  have f: "\<lfloor>- 5000000000000000 :: real\<rfloor> = - 5000000000000000"
    "\<lfloor>5000000000000000 :: real\<rfloor> = 5000000000000000"
    by simp_all
  show "fl (- 10000000000000000) = - 10000000000000000"
    by (simp add: fl_def u round_half_even_def Let_def)
  show "fl 10000000000000000 = 10000000000000000"
    by (simp add: fl_def u round_half_even_def Let_def)
qed

lemma fl_0: "fl 0 = 0" by (simp add: fl_def)

lemma round_half_even_of_int: "round_half_even (of_int m) = m"
  by (simp add: round_half_even_def)

lemma fl_exact:
  assumes "x / ulp x = of_int m"
  shows "fl x = x"
proof -
  have "ulp x \<noteq> 0" by (simp add: ulp_def)
  with assms have "x = of_int m * ulp x" by (simp add: field_simps)
  then show ?thesis
    by (simp add: fl_def assms round_half_even_of_int)
qed

lemma fl_1: "fl 1 = 1"
proof -
  have "binade 1 = 0" by (rule binade_eqI) simp_all
  then have u: "ulp 1 = 2 powr (- 52)" by (simp add: ulp_def)
  have "1 / ulp 1 = 2 powr 52"
    by (simp only: u powr_minus) (simp add: field_simps)
  also have "\<dots> = (2::real) ^ 52"
    by (rule powr_numeral) simp
  also have "\<dots> = of_int (2 ^ 52)"
    by (simp only: of_int_power of_int_numeral)
  finally show ?thesis by (rule fl_exact)
qed

text \<open>With the rounding \<open>fl\<close> the sequence of the example below is this.\<close>

lemma linePoints_fp_fl_example:
  "linePoints_fp fl [10000000000000000, 0, 0] [1, 0, 0] 1 =
     [\<lparr>p_x = Fin 10000000000000000, p_y = Fin 0, p_z = Fin 0, p_t = Fin 0\<rparr>,
      \<lparr>p_x = Fin 0, p_y = Fin 0, p_z = Fin 0, p_t = Fin 1\<rparr>]
   \<and> p_x (linePoints_fp fl [10000000000000000, 0, 0] [1, 0, 0] 1 ! 1) \<noteq> elem [1, 0, 0] 0"
  by (simp add: linePoints_fp_def linePoints_fp_loop.simps point_at_fp_def lerpVec_fp_def
      elem_def param_fp_def fl_0 fl_1 fl_tie fl_big fl_big')

lemma round_half_even_close: "\<bar>of_int (round_half_even r) - r\<bar> \<le> 1 / 2"
  unfolding round_half_even_def Let_def by (auto; linarith)

lemma round_half_even_nearest: "\<bar>of_int (round_half_even r) - r\<bar> \<le> \<bar>of_int j - r\<bar>"
proof (cases "j = round_half_even r")
  case True
  then show ?thesis by simp
next
  case False
  then have "1 \<le> \<bar>j - round_half_even r\<bar>" by linarith
  then have "(1::real) \<le> \<bar>of_int j - of_int (round_half_even r)\<bar>"
    by (metis of_int_1 of_int_abs of_int_diff of_int_le_iff)
  with round_half_even_close [of r] show ?thesis by linarith
qed

lemma binade_bounds:
  assumes "x \<noteq> 0"
  shows "2 powr of_int (binade x) \<le> \<bar>x\<bar>" and "\<bar>x\<bar> < 2 powr (of_int (binade x) + 1)"
proof -
  from assms have pos: "0 < \<bar>x\<bar>" by simp
  have "of_int (binade x) \<le> log 2 \<bar>x\<bar>"
    by (simp add: binade_def)
  with pos show "2 powr of_int (binade x) \<le> \<bar>x\<bar>"
    by (simp add: le_log_iff)
  have "log 2 \<bar>x\<bar> < of_int (binade x) + 1"
    unfolding binade_def by linarith
  with pos show "\<bar>x\<bar> < 2 powr (of_int (binade x) + 1)"
    by (simp add: log_less_iff)
qed

lemma two_powr_53: "(2::real) powr 53 = 2 * 2 powr 52"
proof -
  have "(2::real) powr (1 + 52) = 2 powr 1 * 2 powr 52"
    by (rule powr_add)
  then show ?thesis by simp
qed

lemma ulp_pos: "0 < ulp x"
  by (simp add: ulp_def)

lemma ulp_binade:
  "2 powr of_int (binade x) = 2 powr 52 * ulp x"
  "2 powr (of_int (binade x) + 1) = 2 * 2 powr 52 * ulp x"
proof -
  have "2 powr 52 * ulp x = 2 powr (52 + (of_int (binade x) - 52))"
    unfolding ulp_def by (rule powr_add [symmetric])
  then show a: "2 powr of_int (binade x) = 2 powr 52 * ulp x" by simp
  have "(2::real) powr (of_int (binade x) + 1) = 2 powr of_int (binade x) * 2 powr 1"
    by (rule powr_add)
  with a show "2 powr (of_int (binade x) + 1) = 2 * 2 powr 52 * ulp x" by simp
qed

lemma ratio_bounds:
  assumes "x \<noteq> 0"
  shows "2 powr 52 \<le> \<bar>x / ulp x\<bar>" and "\<bar>x / ulp x\<bar> < 2 * 2 powr 52"
proof -
  have u: "0 < ulp x" by (rule ulp_pos)
  have eq: "\<bar>x / ulp x\<bar> = \<bar>x\<bar> / ulp x"
    using u by simp
  from binade_bounds(1) [OF assms] have "2 powr 52 * ulp x \<le> \<bar>x\<bar>"
    by (simp only: ulp_binade)
  with u show "2 powr 52 \<le> \<bar>x / ulp x\<bar>"
    by (simp add: eq pos_le_divide_eq)
  from binade_bounds(2) [OF assms] have "\<bar>x\<bar> < 2 * 2 powr 52 * ulp x"
    by (simp only: ulp_binade)
  with u show "\<bar>x / ulp x\<bar> < 2 * 2 powr 52"
    by (simp add: eq pos_divide_less_eq)
qed

lemma fl_error:
  assumes "x \<noteq> 0"
  shows "\<bar>fl x - x\<bar> = \<bar>of_int (round_half_even (x / ulp x)) - x / ulp x\<bar> * ulp x"
proof -
  have u: "0 < ulp x" by (rule ulp_pos)
  then have "x = x / ulp x * ulp x" by simp
  then have "fl x - x = (of_int (round_half_even (x / ulp x)) - x / ulp x) * ulp x"
    using assms by (simp add: fl_def left_diff_distrib)
  then show ?thesis
    using u by (simp add: abs_mult)
qed

lemma P52: "(2::real) powr 52 = of_int (2 ^ 52)"
proof -
  have "(2::real) powr 52 = 2 ^ 52" by (rule powr_numeral) simp
  also have "\<dots> = of_int (2 ^ 52)" by (simp only: of_int_power of_int_numeral)
  finally show ?thesis .
qed

lemma representable_0: "representable 0"
  unfolding representable_def by (rule exI [of _ 0], rule exI [of _ 0]) simp

lemma representable_fl: "representable (fl x)"
proof (cases "x = 0")
  case True
  then show ?thesis by (simp add: fl_def representable_0)
next
  case False
  define r where "r = x / ulp x"
  define m where "m = round_half_even r"
  have fl: "fl x = of_int m * ulp x"
    using False by (simp add: fl_def m_def r_def)
  have "\<bar>of_int m\<bar> \<le> \<bar>r\<bar> + 1 / 2"
    using round_half_even_close [of r] unfolding m_def by linarith
  also have "\<dots> < 2 * of_int (2 ^ 52) + 1 / 2"
    using ratio_bounds(2) [OF False] unfolding r_def P52 by linarith
  finally have "(of_int \<bar>m\<bar> :: real) < of_int (2 * 2 ^ 52 + 1)"
    by simp
  then have "\<bar>m\<bar> < 2 * 2 ^ 52 + 1"
    by (simp only: of_int_less_iff)
  then have le: "\<bar>m\<bar> \<le> 2 ^ 53" by simp
  show ?thesis
  proof (cases "\<bar>m\<bar> < 2 ^ 53")
    case True
    have "ulp x = 2 powr of_int (binade x - 52)"
      by (simp add: ulp_def)
    with fl have "fl x = of_int m * 2 powr of_int (binade x - 52)"
      by simp
    with True show ?thesis
      unfolding representable_def by (intro exI [of _ m] exI [of _ "binade x - 52"] conjI)
  next
    case False
    with le have m: "\<bar>m\<bar> = 2 ^ 53" by simp
    then have "m = 9007199254740992 \<or> m = - 9007199254740992"
      by (simp add: abs_if split: if_splits)
    then have ev: "m = 2 * (m div 2)" and half: "\<bar>m div 2\<bar> < 2 ^ 53"
      by auto
    have "(2::real) powr of_int (binade x - 51) = 2 powr (1 + (of_int (binade x) - 52))"
      by simp
    also have "\<dots> = 2 * ulp x"
      unfolding ulp_def by (subst powr_add) simp
    finally have u2: "2 powr of_int (binade x - 51) = 2 * ulp x" .
    have "fl x = of_int (2 * (m div 2)) * ulp x"
      using fl ev by simp
    also have "\<dots> = of_int (m div 2) * 2 powr of_int (binade x - 51)"
      by (simp only: u2 of_int_mult)
    finally have "fl x = of_int (m div 2) * 2 powr of_int (binade x - 51)" .
    with half show ?thesis
      unfolding representable_def
      by (intro exI [of _ "m div 2"] exI [of _ "binade x - 51"] conjI)
  qed
qed

lemma fl_nearest:
  assumes "representable y"
  shows "\<bar>fl x - x\<bar> \<le> \<bar>y - x\<bar>"
proof (cases "x = 0")
  case True
  then show ?thesis by (simp add: fl_def)
next
  case False
  define r where "r = x / ulp x"
  define m where "m = round_half_even r"
  have u: "0 < ulp x" by (rule ulp_pos)
  have xr: "x = r * ulp x" using u by (simp add: r_def)
  have err: "\<bar>fl x - x\<bar> = \<bar>of_int m - r\<bar> * ulp x"
    unfolding m_def r_def by (rule fl_error [OF False])
  have best: "\<bar>fl x - x\<bar> \<le> \<bar>of_int j * ulp x - x\<bar>" for j
  proof -
    have "\<bar>of_int j * ulp x - x\<bar> = \<bar>of_int j - r\<bar> * ulp x"
      using u by (subst xr) (simp add: left_diff_distrib [symmetric] abs_mult)
    moreover have "\<bar>of_int m - r\<bar> * ulp x \<le> \<bar>of_int j - r\<bar> * ulp x"
      using u round_half_even_nearest [of r j] unfolding m_def
      by (simp add: mult_right_mono)
    ultimately show ?thesis by (simp add: err)
  qed
  from assms obtain m' e' :: int
    where m': "\<bar>m'\<bar> < 2 ^ 53" and y: "y = of_int m' * 2 powr of_int e'"
    unfolding representable_def by blast
  show ?thesis
  proof (cases "binade x - 52 \<le> e'")
    case True
    define d where "d = nat (e' - (binade x - 52))"
    from True have "of_int e' = of_int (binade x) - 52 + real d"
      by (simp add: d_def)
    then have "(2::real) powr of_int e' = ulp x * 2 powr real d"
      unfolding ulp_def by (simp add: powr_add)
    also have "\<dots> = ulp x * of_int (2 ^ d)"
      by (simp add: powr_realpow)
    finally have "y = of_int (m' * 2 ^ d) * ulp x"
      by (simp add: y)
    with best [of "m' * 2 ^ d"] show ?thesis by simp
  next
    case False
    then have "of_int e' \<le> of_int (binade x) - (53::real)"
      by linarith
    then have "(2::real) powr of_int e' \<le> 2 powr (of_int (binade x) - 53)"
      by simp
    moreover have "\<bar>of_int m' :: real\<bar> < 2 * 2 powr 52"
    proof -
      from m' have "(of_int \<bar>m'\<bar> :: real) < of_int (2 ^ 53)"
        by (simp only: of_int_less_iff)
      then show ?thesis by (simp add: P52)
    qed
    moreover have "0 < (2::real) powr of_int e'" by simp
    ultimately have "\<bar>of_int m' :: real\<bar> * 2 powr of_int e'
        < 2 * 2 powr 52 * 2 powr (of_int (binade x) - 53)"
      by (smt (verit) mult_strict_right_mono mult_left_mono powr_gt_zero mult_pos_pos)
    also have "2 * 2 powr 52 * 2 powr (of_int (binade x) - 53) = (2::real) powr of_int (binade x)"
    proof -
      have "2 powr 53 * 2 powr (of_int (binade x) - 53) = (2::real) powr (53 + (of_int (binade x) - 53))"
        by (rule powr_add [symmetric])
      then show ?thesis by (simp add: two_powr_53)
    qed
    finally have ysmall: "\<bar>y\<bar> < 2 powr of_int (binade x)"
      by (simp add: y abs_mult)
    define j0 :: int where "j0 = (if 0 < x then 2 ^ 52 else - (2 ^ 52))"
    have "of_int j0 * ulp x = (if 0 < x then 2 powr of_int (binade x) else - (2 powr of_int (binade x)))"
      unfolding j0_def by (simp add: ulp_binade(1) P52 del: of_int_power of_int_numeral)
    moreover note binade_bounds(1) [OF \<open>x \<noteq> 0\<close>]
    ultimately have "\<bar>of_int j0 * ulp x - x\<bar> = \<bar>x\<bar> - 2 powr of_int (binade x)"
      using \<open>x \<noteq> 0\<close> by (auto simp: abs_if split: if_splits)
    with best [of j0] have "\<bar>fl x - x\<bar> \<le> \<bar>x\<bar> - 2 powr of_int (binade x)"
      by simp
    with ysmall show ?thesis by linarith
  qed
qed

lemma nearest_fl: "nearest fl"
  unfolding nearest_def by (simp add: representable_fl fl_nearest)

lemma nearest_exact:
  assumes "nearest rnd" and "representable x"
  shows "rnd x = x"
proof -
  from assms have "\<bar>rnd x - x\<bar> \<le> \<bar>x - x\<bar>"
    unfolding nearest_def by blast
  then show ?thesis by simp
qed

lemma representable_int: "\<bar>m\<bar> < 2 ^ 53 \<Longrightarrow> representable (of_int m)"
  unfolding representable_def by (intro exI [of _ m] exI [of _ 0]) simp

lemma representable_twice: "\<bar>m\<bar> < 2 ^ 53 \<Longrightarrow> representable (2 * of_int m)"
  unfolding representable_def by (intro exI [of _ m] exI [of _ 1]) simp

lemma representable_even:
  assumes "representable y" and "2 * 2 powr 52 \<le> \<bar>y\<bar>"
  shows "\<exists>k :: int. y = 2 * of_int k"
proof -
  from assms(1) obtain m e :: int
    where m: "\<bar>m\<bar> < 2 ^ 53" and y: "y = of_int m * 2 powr of_int e"
    unfolding representable_def by blast
  from m have "(of_int \<bar>m\<bar> :: real) < of_int (2 ^ 53)"
    by (simp only: of_int_less_iff)
  then have mr: "\<bar>of_int m :: real\<bar> < 2 * 2 powr 52"
    by (simp add: P52)
  have "1 \<le> e"
  proof (rule ccontr)
    assume "\<not> 1 \<le> e"
    then have "of_int e \<le> (0::real)" by simp
    then have "(2::real) powr of_int e \<le> 2 powr 0"
      by (simp only: powr_le_cancel_iff)
    then have "(2::real) powr of_int e \<le> 1" by simp
    moreover have "0 < (2::real) powr of_int e" by simp
    ultimately have "\<bar>of_int m :: real\<bar> * 2 powr of_int e \<le> \<bar>of_int m\<bar>"
      by (simp add: mult_left_le)
    with mr assms(2) show False
      by (simp add: y abs_mult)
  qed
  define d where "d = nat (e - 1)"
  from \<open>1 \<le> e\<close> have "of_int e = 1 + real d" by (simp add: d_def)
  then have "(2::real) powr of_int e = 2 powr 1 * 2 powr real d"
    by (simp add: powr_add)
  also have "\<dots> = 2 * of_int (2 ^ d)"
    by (simp add: powr_realpow)
  finally have "y = 2 * of_int (m * 2 ^ d)"
    by (simp add: y)
  then show ?thesis ..
qed

lemma nearest_tie:
  assumes "nearest rnd"
  shows "rnd (- 9999999999999999) = - 10000000000000000
       \<or> rnd (- 9999999999999999) = - 9999999999999998"
proof -
  define d where "d = rnd (- 9999999999999999)"
  have "representable (2 * of_int (- 4999999999999999))"
    by (rule representable_twice) simp
  then have "representable (- 9999999999999998)" by simp
  with assms have "\<bar>d - (- 9999999999999999)\<bar> \<le> \<bar>- 9999999999999998 - (- 9999999999999999)\<bar>"
    unfolding nearest_def d_def by blast
  then have range: "- 10000000000000000 \<le> d" "d \<le> - 9999999999999998"
    by linarith+
  from assms have rep: "representable d"
    unfolding nearest_def d_def by blast
  have "(2::real) * 2 powr 52 = 9007199254740992"
    by (simp add: P52)
  with range have "2 * 2 powr 52 \<le> \<bar>d\<bar>" by linarith
  with rep obtain k :: int where k: "d = 2 * of_int k"
    using representable_even by blast
  with range have "(of_int (- 5000000000000000) :: real) \<le> of_int k"
    "(of_int k :: real) \<le> of_int (- 4999999999999999)"
    by simp_all
  then have "- 5000000000000000 \<le> k" "k \<le> - 4999999999999999"
    by (simp_all only: of_int_le_iff)
  then have "k = - 5000000000000000 \<or> k = - 4999999999999999" by linarith
  with k show ?thesis
    unfolding d_def by auto
qed

text \<open>
  Claim C1 fails on the code. The end points are not assigned: \<^verbatim>\<open>linePoints\<close> evaluates
  \<^verbatim>\<open>a + (b - a) * t\<close> at \<open>t = 0\<close> and at \<open>t = 1\<close> like everywhere else. With the start
  \<open>(10 ^ 16, 0, 0)\<close>, the end \<open>(1, 0, 0)\<close> and one leg, the difference \<open>1 - 10 ^ 16\<close> lies
  half way between two doubles. Under every rounding to a nearest double the first
  checkpoint is the start, but the last checkpoint has \<open>x = 0\<close> or \<open>x = 2\<close>, according to
  the side the tie is rounded to, where the end has \<open>x = 1\<close>. Doubles round the tie to
  even, which gives \<open>x = 0\<close>.
\<close>

theorem linePoints_fp_end_inexact:
  assumes "nearest rnd"
  shows "linePoints_fp rnd [10000000000000000, 0, 0] [1, 0, 0] 1 ! 0
           = \<lparr>p_x = Fin 10000000000000000, p_y = Fin 0, p_z = Fin 0, p_t = Fin 0\<rparr>
       \<and> (linePoints_fp rnd [10000000000000000, 0, 0] [1, 0, 0] 1 ! 1
             = \<lparr>p_x = Fin 0, p_y = Fin 0, p_z = Fin 0, p_t = Fin 1\<rparr>
          \<or> linePoints_fp rnd [10000000000000000, 0, 0] [1, 0, 0] 1 ! 1
             = \<lparr>p_x = Fin 2, p_y = Fin 0, p_z = Fin 0, p_t = Fin 1\<rparr>)
       \<and> p_x (linePoints_fp rnd [10000000000000000, 0, 0] [1, 0, 0] 1 ! 1) \<noteq> elem [1, 0, 0] 0"
proof -
  have r0: "rnd 0 = 0" and r1: "rnd 1 = 1" and r2: "rnd 2 = 2"
    using nearest_exact [OF assms representable_int [of 0]]
      nearest_exact [OF assms representable_int [of 1]]
      nearest_exact [OF assms representable_int [of 2]]
    by simp_all
  have "representable (2 * of_int 5000000000000000)" "representable (2 * of_int (- 5000000000000000))"
    "representable (2 * of_int (- 4999999999999999))"
    by (rule representable_twice; simp)+
  then have big: "rnd 10000000000000000 = 10000000000000000"
    "rnd (- 10000000000000000) = - 10000000000000000"
    "rnd (- 9999999999999998) = - 9999999999999998"
    using nearest_exact [OF assms] by simp_all
  have pts: "linePoints_fp rnd [10000000000000000, 0, 0] [1, 0, 0] 1 =
     [\<lparr>p_x = Fin 10000000000000000, p_y = Fin 0, p_z = Fin 0, p_t = Fin 0\<rparr>,
      \<lparr>p_x = Fin (rnd (10000000000000000 + rnd (rnd (- 9999999999999999)))),
       p_y = Fin 0, p_z = Fin 0, p_t = Fin 1\<rparr>]"
    by (simp add: linePoints_fp_def linePoints_fp_loop.simps point_at_fp_def lerpVec_fp_def
        elem_def param_fp_def r0 r1 big)
  from nearest_tie [OF assms] show ?thesis
  proof
    assume "rnd (- 9999999999999999) = - 10000000000000000"
    then show ?thesis by (simp add: pts big r0 elem_def)
  next
    assume "rnd (- 9999999999999999) = - 9999999999999998"
    then show ?thesis by (simp add: pts big r2 elem_def)
  qed
qed

theorem linePoints_fp_end_inexact_witness:
  "nearest fl
   \<and> linePoints_fp fl [10000000000000000, 0, 0] [1, 0, 0] 1 ! 0
     = \<lparr>p_x = Fin 10000000000000000, p_y = Fin 0, p_z = Fin 0, p_t = Fin 0\<rparr>
   \<and> p_x (linePoints_fp fl [10000000000000000, 0, 0] [1, 0, 0] 1 ! 1) \<noteq> Fin 1"
  using linePoints_fp_end_inexact [OF nearest_fl] nearest_fl by (simp add: elem_def)

section \<open>Properties of the reconciliation\<close>

lemma length_reconcile_loop: "length (reconcile_loop prev n i out) = length out"
proof (induction prev n i out rule: reconcile_loop.induct)
  case (1 prev n i out)
  then show ?case
    by (subst reconcile_loop.simps) simp
qed

lemma nth_reconcile_loop:
  "j < length out \<Longrightarrow>
     reconcile_loop prev n i out ! j =
       (if i \<le> j \<and> j < min (length prev) n then prev ! j else out ! j)"
proof (induction prev n i out rule: reconcile_loop.induct)
  case (1 prev n i out)
  show ?case
  proof (cases "i < min (length prev) n")
    case True
    with 1 have IH: "reconcile_loop prev n (Suc i) (out[i := prev ! i]) ! j =
        (if Suc i \<le> j \<and> j < min (length prev) n then prev ! j else out[i := prev ! i] ! j)"
      by simp
    from True have unfold: "reconcile_loop prev n i out =
        reconcile_loop prev n (Suc i) (out[i := prev ! i])"
      by (subst reconcile_loop.simps) simp
    show ?thesis
    proof (cases "j = i")
      case True
      with \<open>i < min (length prev) n\<close> "1.prems" IH show ?thesis
        by (simp add: unfold)
    next
      case False
      then have "Suc i \<le> j \<longleftrightarrow> i \<le> j" by auto
      with False IH show ?thesis
        by (simp add: unfold)
    qed
  next
    case False
    then show ?thesis
      by (subst reconcile_loop.simps) auto
  qed
qed

lemma reconcile_take:
  "reconcile prev n = take n prev @ replicate (n - length prev) (JBool False)"
  by (rule nth_equalityI)
     (auto simp: reconcile_def length_reconcile_loop nth_reconcile_loop nth_append)

text \<open>
  Claim C7. For every previous flag list and every new length \<open>n\<close>, the reconciled list has
  length exactly \<open>n\<close>; every index below \<open>min (length prev) n\<close> holds the previous flag at
  that index and every other index holds \<^verbatim>\<open>false\<close>; when \<open>n\<close> is the length of the previous
  list, the list is returned as it was.
\<close>

theorem reconcile_spec:
  "length (reconcile prev n) = n
   \<and> (\<forall>i<n. reconcile prev n ! i = (if i < min (length prev) n then prev ! i else JBool False))
   \<and> reconcile prev (length prev) = prev"
  by (simp add: reconcile_take nth_append)

theorem reconcile_spec_witness:
  "length (reconcile [JBool True, JBool False, JBool True] 5) = 5
   \<and> reconcile [JBool True, JBool False, JBool True] 5 ! 0 = JBool True
   \<and> reconcile [JBool True, JBool False, JBool True] 5 ! 4 = JBool False
   \<and> reconcile [JBool True, JBool False, JBool True] 3 = [JBool True, JBool False, JBool True]"
  using reconcile_spec [of "[JBool True, JBool False, JBool True]" 5]
        reconcile_spec [of "[JBool True, JBool False, JBool True]" 3]
  by (simp add: numeral_3_eq_3)

section \<open>Properties of the current checkpoint\<close>

lemma findIndex_None: "findIndex P xs = None \<longleftrightarrow> (\<forall>x\<in>set xs. \<not> P x)"
  by (induction xs) auto

lemma findIndex_first:
  "i < length xs \<Longrightarrow> P (xs ! i) \<Longrightarrow> (\<forall>j<i. \<not> P (xs ! j)) \<Longrightarrow> findIndex P xs = Some i"
proof (induction xs arbitrary: i)
  case Nil
  then show ?case by simp
next
  case (Cons x xs)
  show ?case
  proof (cases i)
    case 0
    with Cons.prems show ?thesis by simp
  next
    case (Suc k)
    with Cons.prems have "\<not> P x" by auto
    moreover from Suc Cons.prems have "findIndex P xs = Some k"
      by (intro Cons.IH) auto
    ultimately show ?thesis using Suc by simp
  qed
qed

text \<open>
  Claim C9. When the flags are aligned with a non-empty checkpoint sequence,
  \<^verbatim>\<open>currentPoint\<close> is the checkpoint at the smallest index whose flag is falsy; when every
  flag is truthy it is the last checkpoint; for the flags \<^verbatim>\<open>[true, false, true]\<close> over three
  checkpoints it is the checkpoint at index 1.
\<close>

theorem currentPoint_first_false:
  assumes "length dn = length pts" and "pts \<noteq> []"
  shows "(\<forall>i<length dn. \<not> truthy (dn ! i) \<longrightarrow> (\<forall>j<i. truthy (dn ! j))
            \<longrightarrow> currentPoint dn pts = Some (pts ! i))
       \<and> ((\<forall>v\<in>set dn. truthy v) \<longrightarrow> currentPoint dn pts = Some (last pts))
       \<and> currentPoint [JBool True, JBool False, JBool True] [p0, p1, p2] = Some p1"
proof -
  have a: "currentPoint dn pts = Some (pts ! i)"
    if "i < length dn" "\<not> truthy (dn ! i)" "\<forall>j<i. truthy (dn ! j)" for i
  proof -
    from that have "findIndex (\<lambda>v. \<not> truthy v) dn = Some i"
      by (intro findIndex_first) auto
    with that assms show ?thesis
      by (simp add: currentPoint_def index_def)
  qed
  have b: "currentPoint dn pts = Some (last pts)" if "\<forall>v\<in>set dn. truthy v"
  proof -
    from that have "findIndex (\<lambda>v. \<not> truthy v) dn = None"
      by (simp add: findIndex_None)
    with assms show ?thesis
      by (simp add: currentPoint_def index_def last_conv_nth)
  qed
  have c: "currentPoint [JBool True, JBool False, JBool True] [p0, p1, p2] = Some p1"
    by (simp add: currentPoint_def index_def)
  from a b c show ?thesis by blast
qed

theorem currentPoint_first_false_witness:
  "currentPoint [JBool True, JBool False, JBool False]
     (linePoints [0, 0, 0] [400, 50, - 300] 2)
     = Some \<lparr>p_x = Fin 200, p_y = Fin 25, p_z = Fin (- 150), p_t = Fin (1 / 2)\<rparr>
   \<and> currentPoint [JBool True, JBool True, JBool True]
     (linePoints [0, 0, 0] [400, 50, - 300] 2)
     = Some \<lparr>p_x = Fin 400, p_y = Fin 50, p_z = Fin (- 300), p_t = Fin 1\<rparr>"
proof -
  let ?pts = "linePoints [0, 0, 0] [400, 50, - 300] 2"
  note pts = linePoints_example
  have h1: "length [JBool True, JBool False, JBool False] = length ?pts"
    and h2: "length [JBool True, JBool True, JBool True] = length ?pts"
    and h3: "?pts \<noteq> []"
    by (simp_all add: pts)
  have "currentPoint [JBool True, JBool False, JBool False] ?pts = Some (?pts ! 1)"
    using currentPoint_first_false [OF h1 h3, THEN conjunct1, rule_format, of 1]
    by simp
  moreover have "currentPoint [JBool True, JBool True, JBool True] ?pts = Some (last ?pts)"
    using currentPoint_first_false [OF h2 h3, THEN conjunct2, THEN conjunct1]
    by simp
  ultimately show ?thesis
    by (simp add: pts)
qed

section \<open>Properties of the progress statistic\<close>

lemma completedCount_all: "(\<forall>v\<in>set dn. truthy v) \<Longrightarrow> completedCount dn = length dn"
  by (simp add: completedCount_def)

text \<open>
  Claim C2, amended. Over a checkpoint sequence of length \<open>L\<close>, \<^verbatim>\<open>progress\<close> is
  \<open>completedCount / (L - 1) * 100\<close> when \<open>L > 1\<close> and 0 when \<open>L \<le> 1\<close>. It is never negative, and
  for \<open>L > 1\<close> it is at most 100 exactly when at most \<open>L - 1\<close> flags are truthy. When the
  flags are aligned with a sequence of more than one checkpoint and all of them are
  truthy, it is \<open>100 * L / (L - 1)\<close>, which is more than 100.
\<close>

theorem progress_formula_bounds:
  "(1 < length pts \<longrightarrow>
      progress dn pts = real (completedCount dn) / (real (length pts) - 1) * 100)
   \<and> (length pts \<le> 1 \<longrightarrow> progress dn pts = 0)
   \<and> 0 \<le> progress dn pts
   \<and> (1 < length pts \<longrightarrow>
        (progress dn pts \<le> 100 \<longleftrightarrow> completedCount dn \<le> length pts - 1))
   \<and> (length dn = length pts \<longrightarrow> 1 < length pts \<longrightarrow> (\<forall>v\<in>set dn. truthy v) \<longrightarrow>
        progress dn pts = 100 * real (length pts) / (real (length pts) - 1)
        \<and> 100 < progress dn pts)"
proof -
  have f: "progress dn pts = real (completedCount dn) / (real (length pts) - 1) * 100"
    if "1 < length pts"
    using that by (simp add: progress_def)
  have z: "progress dn pts = 0" if "length pts \<le> 1"
    using that by (simp add: progress_def)
  have nn: "0 \<le> progress dn pts"
    by (simp add: progress_def)
  have le: "progress dn pts \<le> 100 \<longleftrightarrow> completedCount dn \<le> length pts - 1"
    if "1 < length pts"
  proof -
    from that have pos: "0 < real (length pts) - 1" by simp
    have "progress dn pts \<le> 100 \<longleftrightarrow>
        real (completedCount dn) / (real (length pts) - 1) * 100 \<le> 1 * 100"
      by (simp only: f [OF that] mult_1)
    also have "\<dots> \<longleftrightarrow> real (completedCount dn) / (real (length pts) - 1) \<le> 1"
      by (rule mult_le_cancel_right_pos) simp
    also from pos have "\<dots> \<longleftrightarrow> real (completedCount dn) \<le> real (length pts) - 1"
      by (simp add: pos_divide_le_eq)
    also from that have "\<dots> \<longleftrightarrow> completedCount dn \<le> length pts - 1"
      by (simp add: of_nat_diff) linarith
    finally show ?thesis .
  qed
  have full: "progress dn pts = 100 * real (length pts) / (real (length pts) - 1)
      \<and> 100 < progress dn pts"
    if "length dn = length pts" "1 < length pts" "\<forall>v\<in>set dn. truthy v"
  proof -
    from that have cc: "completedCount dn = length pts"
      by (simp add: completedCount_all)
    from that have pos: "0 < real (length pts) - 1" by simp
    have eq: "progress dn pts = 100 * real (length pts) / (real (length pts) - 1)"
      by (simp add: f [OF that(2)] cc)
    have "\<not> completedCount dn \<le> length pts - 1"
      using cc that(2) by simp
    with le [OF that(2)] have "100 < progress dn pts" by simp
    with eq show ?thesis by simp
  qed
  from f z nn le full show ?thesis by blast
qed

lemma reconcile_empty_3: "reconcile [] 3 = [JBool False, JBool False, JBool False]"
  by (simp add: reconcile_def reconcile_loop.simps numeral_3_eq_3)

text \<open>
  Claim C2 as stated bounds \<^verbatim>\<open>progress\<close> by 100 in every reachable state and gives 100
  when all flags are true. With two legs (three checkpoints) and all three boxes ticked,
  starting from the reconciled empty flag list, \<^verbatim>\<open>progress\<close> is 150.
\<close>

theorem progress_range_counterexample:
  "length (toggle (toggle (toggle (reconcile [] 3) 0 True) 1 True) 2 True)
     = length (linePoints [0, 0, 0] [400, 50, - 300] 2)
   \<and> list_all truthy (toggle (toggle (toggle (reconcile [] 3) 0 True) 1 True) 2 True)
   \<and> progress (toggle (toggle (toggle (reconcile [] 3) 0 True) 1 True) 2 True)
        (linePoints [0, 0, 0] [400, 50, - 300] 2) = 150
   \<and> \<not> progress (toggle (toggle (toggle (reconcile [] 3) 0 True) 1 True) 2 True)
        (linePoints [0, 0, 0] [400, 50, - 300] 2) \<le> 100"
  by (simp add: reconcile_empty_3 toggle_def linePoints_example progress_def completedCount_def)

theorem progress_formula_bounds_witness:
  "progress [JBool True, JBool False, JBool True] (linePoints [0, 0, 0] [400, 50, - 300] 2) = 100
   \<and> progress [JBool True, JBool False, JBool True] [] = 0
   \<and> progress [JBool True, JBool True, JBool True] (linePoints [0, 0, 0] [400, 50, - 300] 2) = 150"
proof -
  let ?pts = "linePoints [0, 0, 0] [400, 50, - 300] 2"
  have len: "1 < length ?pts" "length [JBool True, JBool True, JBool True] = length ?pts"
    by (simp_all add: linePoints_example)
  have cc: "completedCount [JBool True, JBool False, JBool True] = 2"
    by (simp add: completedCount_def)
  have all: "\<forall>v\<in>set [JBool True, JBool True, JBool True]. truthy v"
    by simp
  have "progress [JBool True, JBool False, JBool True] ?pts = 100"
    using progress_formula_bounds [of ?pts "[JBool True, JBool False, JBool True]"] len
    by (simp add: cc linePoints_example)
  moreover have "progress [JBool True, JBool False, JBool True] [] = 0"
    using progress_formula_bounds [of "[]" "[JBool True, JBool False, JBool True]"]
    by simp
  moreover have "progress [JBool True, JBool True, JBool True] ?pts = 150"
    using progress_formula_bounds [of ?pts "[JBool True, JBool True, JBool True]"] len all
    by (simp add: linePoints_example)
  ultimately show ?thesis by simp
qed

section \<open>Properties of import, export and load\<close>

lemma field_thrown: "obj = JUndefined \<or> obj = JNull \<Longrightarrow> field obj k = JUndefined"
  by (auto simp: field_def)

lemma reading_field:
  "reading obj k thrown cont =
     (if obj = JUndefined \<or> obj = JNull then thrown else cont (field obj k))"
  by (cases obj) (simp_all add: reading_def field_def)

lemma import_body_eq:
  "import_body obj st =
     (if obj = JUndefined \<or> obj = JNull then (st, Some ''Invalid JSON'')
      else if truthy (field obj ''start'') \<and> truthy (field obj ''end'') then (imported obj st, None)
      else (st, None))"
  by (simp add: import_body_def reading_field imported_def Let_def)

lemma load_body_eq:
  "load_body obj st =
     (if truthy (field obj ''start'') \<and> truthy (field obj ''end'')
         \<and> truthy (field obj ''numCheckpoints'')
      then loaded obj st else st)"
  by (simp add: load_body_def reading_field loaded_def Let_def field_thrown)

lemma onload_eq:
  "onload parse text st =
     (case parse text of
        None \<Rightarrow> (st, Some ''Invalid JSON'')
      | Some obj \<Rightarrow>
          if obj = JUndefined \<or> obj = JNull then (st, Some ''Invalid JSON'')
          else if truthy (field obj ''start'') \<and> truthy (field obj ''end'')
          then (imported obj st, None)
          else (st, None))"
  by (simp add: onload_def import_body_eq split: option.splits)

text \<open>
  What the import does to the state, for every text: it applies the whole document or
  leaves the state exactly as it was, never a part of it. It applies the document when
  the text parses to a value whose \<^verbatim>\<open>start\<close> and \<^verbatim>\<open>end\<close> are both truthy. A text that is not
  well-formed JSON, and the document \<^verbatim>\<open>null\<close>, raise the notice \<^verbatim>\<open>Invalid JSON\<close>.
\<close>

lemma handleImportJSON_all_or_nothing:
  "fst (handleImportJSON parse (Some text) st) =
     (case parse text of
        None \<Rightarrow> st
      | Some obj \<Rightarrow>
          if truthy (field obj ''start'') \<and> truthy (field obj ''end'')
          then imported obj st else st)
   \<and> (parse text = None \<or> parse text = Some JNull \<longrightarrow>
        handleImportJSON parse (Some text) st = (st, Some ''Invalid JSON''))
   \<and> (\<forall>obj. parse text = Some obj \<longrightarrow> truthy (field obj ''start'') \<longrightarrow>
          truthy (field obj ''end'') \<longrightarrow> snd (handleImportJSON parse (Some text) st) = None)
   \<and> (parse text = Some (JObj [(''start'', JArr [JNum 0, JNum 0, JNum 0])]) \<longrightarrow>
        fst (handleImportJSON parse (Some text) st) = st)"
proof -
  have a: "fst (handleImportJSON parse (Some text) st) =
     (case parse text of
        None \<Rightarrow> st
      | Some obj \<Rightarrow>
          if truthy (field obj ''start'') \<and> truthy (field obj ''end'')
          then imported obj st else st)"
    by (auto simp: handleImportJSON_def onload_eq field_thrown split: option.splits)
  have b: "handleImportJSON parse (Some text) st = (st, Some ''Invalid JSON'')"
    if "parse text = None \<or> parse text = Some JNull"
    using that by (auto simp: handleImportJSON_def onload_eq)
  have c: "snd (handleImportJSON parse (Some text) st) = None"
    if "parse text = Some obj" "truthy (field obj ''start'')" "truthy (field obj ''end'')" for obj
    using that by (auto simp: handleImportJSON_def onload_eq field_thrown)
  have d: "fst (handleImportJSON parse (Some text) st) = st"
    if "parse text = Some (JObj [(''start'', JArr [JNum 0, JNum 0, JNum 0])])"
    using that by (simp add: a field_def)
  from a b c d show ?thesis by blast
qed

text \<open>
  Claim C5 fails on the code. The document \<^verbatim>\<open>{"start":[0,0,0]}\<close>, with no \<^verbatim>\<open>end\<close>, is rejected
  and the state is left as it was, as the claim says, but no notice is produced: the
  guard \<^verbatim>\<open>if (obj.start && obj.end)\<close> has no \<^verbatim>\<open>else\<close>, and the alert sits in the \<^verbatim>\<open>catch\<close> block
  alone, which a text that is not well-formed JSON does reach.
\<close>

theorem handleImportJSON_missing_end_no_notice:
  "handleImportJSON
     (map_of [(''{\"start\":[0,0,0]}'', JObj [(''start'', JArr [JNum 0, JNum 0, JNum 0])])])
     (Some ''{\"start\":[0,0,0]}'') (initial_state\<lparr>start := JArr [JNum 7, JNum 8, JNum 9]\<rparr>)
     = (initial_state\<lparr>start := JArr [JNum 7, JNum 8, JNum 9]\<rparr>, None)
   \<and> handleImportJSON (map_of []) (Some ''{\"start\":'')
       (initial_state\<lparr>start := JArr [JNum 7, JNum 8, JNum 9]\<rparr>)
     = (initial_state\<lparr>start := JArr [JNum 7, JNum 8, JNum 9]\<rparr>, Some ''Invalid JSON'')"
  by (simp add: handleImportJSON_def onload_eq field_def)









text \<open>
  Claim C8. Every exception of the load is caught inside it, so it always yields a state.
  When nothing is stored under the key, when the stored text does not parse, or when the
  parsed value lacks \<^verbatim>\<open>start\<close>, \<^verbatim>\<open>end\<close> or \<^verbatim>\<open>numCheckpoints\<close>, the state is left as it is.
  When the load succeeds, a missing \<^verbatim>\<open>radius\<close> becomes 500 and a missing \<^verbatim>\<open>done\<close> becomes
  the empty list.
\<close>

theorem load_absent_or_defaults:
  "(store (stateKey st) = None \<longrightarrow> load parse store st = st)
   \<and> (\<forall>saved. store (stateKey st) = Some saved \<longrightarrow> parse saved = None \<longrightarrow>
          load parse store st = st)
   \<and> (\<forall>saved obj. store (stateKey st) = Some saved \<longrightarrow> parse saved = Some obj \<longrightarrow>
          field obj ''start'' = JUndefined \<or> field obj ''end'' = JUndefined
            \<or> field obj ''numCheckpoints'' = JUndefined \<longrightarrow>
          load parse store st = st)
   \<and> (\<forall>saved obj. store (stateKey st) = Some saved \<longrightarrow> saved \<noteq> [] \<longrightarrow>
          parse saved = Some obj \<longrightarrow>
          truthy (field obj ''start'') \<longrightarrow> truthy (field obj ''end'') \<longrightarrow>
          truthy (field obj ''numCheckpoints'') \<longrightarrow>
            load parse store st = loaded obj st
            \<and> (field obj ''radius'' = JUndefined \<longrightarrow> radius (load parse store st) = JNum 500)
            \<and> (field obj ''done'' = JUndefined \<longrightarrow> doneFlags (load parse store st) = JArr []))"
proof -
  have a: "load parse store st = st" if "store (stateKey st) = None"
    using that by (simp add: load_def)
  have b: "load parse store st = st" if "store (stateKey st) = Some saved" "parse saved = None"
    for saved
    using that by (simp add: load_def)
  have c: "load parse store st = st"
    if "store (stateKey st) = Some saved" "parse saved = Some obj"
      "field obj ''start'' = JUndefined \<or> field obj ''end'' = JUndefined
            \<or> field obj ''numCheckpoints'' = JUndefined"
    for saved obj
    using that by (auto simp: load_def load_body_eq)
  have d: "load parse store st = loaded obj st"
    if "store (stateKey st) = Some saved" "saved \<noteq> []" "parse saved = Some obj"
       "truthy (field obj ''start'')" "truthy (field obj ''end'')"
       "truthy (field obj ''numCheckpoints'')"
    for saved obj
    using that by (simp add: load_def load_body_eq)
  have e: "radius (loaded obj st) = JNum 500" if "field obj ''radius'' = JUndefined" for obj
    using that by (simp add: loaded_def nullish_def)
  have f: "doneFlags (loaded obj st) = JArr []" if "field obj ''done'' = JUndefined" for obj
    using that by (simp add: loaded_def nullish_def)
  from a b c d e f show ?thesis
    by (intro conjI allI impI) simp_all
qed

theorem load_absent_or_defaults_witness:
  "load (map_of []) (map_of []) (initial_state\<lparr>radius := JNum 7\<rparr>) = initial_state\<lparr>radius := JNum 7\<rparr>
   \<and> load (map_of [])
        (map_of [(''nms-line-state-v1'', ''{\"start\":'')])
        (initial_state\<lparr>radius := JNum 7\<rparr>) = initial_state\<lparr>radius := JNum 7\<rparr>
   \<and> load (map_of [(''{\"start\":[1,2,3],\"end\":[4,5,6]}'',
                     JObj [(''start'', JArr [JNum 1, JNum 2, JNum 3]),
                           (''end'', JArr [JNum 4, JNum 5, JNum 6])])])
        (map_of [(''nms-line-state-v1'', ''{\"start\":[1,2,3],\"end\":[4,5,6]}'')])
        (initial_state\<lparr>radius := JNum 7\<rparr>) = initial_state\<lparr>radius := JNum 7\<rparr>
   \<and> radius (load (map_of [(''{\"start\":[1,2,3],\"end\":[4,5,6],\"numCheckpoints\":10}'',
                     JObj [(''start'', JArr [JNum 1, JNum 2, JNum 3]),
                           (''end'', JArr [JNum 4, JNum 5, JNum 6]),
                           (''numCheckpoints'', JNum 10)])])
        (map_of [(''nms-line-state-v1'',
                  ''{\"start\":[1,2,3],\"end\":[4,5,6],\"numCheckpoints\":10}'')])
        (initial_state\<lparr>radius := JNum 7\<rparr>)) = JNum 500"
proof -
  let ?st = "initial_state\<lparr>radius := JNum 7\<rparr>"
  let ?t1 = "''{\"start\":''"
  let ?t2 = "''{\"start\":[1,2,3],\"end\":[4,5,6]}''"
  let ?d2 = "JObj [(''start'', JArr [JNum 1, JNum 2, JNum 3]),
                   (''end'', JArr [JNum 4, JNum 5, JNum 6])]"
  let ?t3 = "''{\"start\":[1,2,3],\"end\":[4,5,6],\"numCheckpoints\":10}''"
  let ?d3 = "JObj [(''start'', JArr [JNum 1, JNum 2, JNum 3]),
                   (''end'', JArr [JNum 4, JNum 5, JNum 6]),
                   (''numCheckpoints'', JNum 10)]"
  have key: "stateKey ?st = ''nms-line-state-v1''"
    by (simp add: initial_state_def)
  have "load (map_of []) (map_of []) ?st = ?st"
    using load_absent_or_defaults [of "map_of []" ?st "map_of []", THEN conjunct1]
    by simp
  moreover have "load (map_of []) (map_of [(''nms-line-state-v1'', ?t1)]) ?st = ?st"
    using load_absent_or_defaults [of "map_of [(''nms-line-state-v1'', ?t1)]" ?st "map_of []",
        THEN conjunct2, THEN conjunct1, rule_format, of ?t1]
    by (simp add: key)
  moreover have "load (map_of [(?t2, ?d2)]) (map_of [(''nms-line-state-v1'', ?t2)]) ?st = ?st"
    using load_absent_or_defaults [of "map_of [(''nms-line-state-v1'', ?t2)]" ?st
        "map_of [(?t2, ?d2)]",
        THEN conjunct2, THEN conjunct2, THEN conjunct1, rule_format, of ?t2 ?d2]
    by (simp add: key field_def)
  moreover have "radius (load (map_of [(?t3, ?d3)]) (map_of [(''nms-line-state-v1'', ?t3)]) ?st)
      = JNum 500"
    using load_absent_or_defaults [of "map_of [(''nms-line-state-v1'', ?t3)]" ?st
        "map_of [(?t3, ?d3)]",
        THEN conjunct2, THEN conjunct2, THEN conjunct2, rule_format, of ?t3 ?d3,
        THEN conjunct2, THEN conjunct1]
    by (simp add: key field_def)
  ultimately show ?thesis by simp
qed



lemma linePoints_negative: "n < 0 \<Longrightarrow> linePoints a b n = []"
  by (simp add: linePoints_def linePoints_loop.simps)

text \<open>
  Claim C3 fails on the code. A document with \<^verbatim>\<open>"numCheckpoints": -3\<close> is accepted by the
  import and by the load with the count as it is, and the checkpoint sequence of the
  resulting state is empty, whereas the same count typed into the input field is
  clamped to 1.
\<close>

theorem import_negative_count_unclamped:
  "linePoints_state (fst (handleImportJSON
      (map_of [(''{\"start\":[0,0,0],\"end\":[400,50,-300],\"numCheckpoints\":-3}'',
                JObj [(''start'', JArr [JNum 0, JNum 0, JNum 0]),
                      (''end'', JArr [JNum 400, JNum 50, JNum (- 300)]),
                      (''numCheckpoints'', JNum (- 3))])])
      (Some ''{\"start\":[0,0,0],\"end\":[400,50,-300],\"numCheckpoints\":-3}'')
      initial_state)) = Some []
   \<and> linePoints_state (load
      (map_of [(''{\"start\":[0,0,0],\"end\":[400,50,-300],\"numCheckpoints\":-3}'',
                JObj [(''start'', JArr [JNum 0, JNum 0, JNum 0]),
                      (''end'', JArr [JNum 400, JNum 50, JNum (- 300)]),
                      (''numCheckpoints'', JNum (- 3))])])
      (map_of [(''nms-line-state-v1'',
                ''{\"start\":[0,0,0],\"end\":[400,50,-300],\"numCheckpoints\":-3}'')])
      initial_state) = Some []
   \<and> numCheckpoints (onChange_numCheckpoints (Fin (- 3)) initial_state) = JNum 1"
  by (simp add: handleImportJSON_def onload_eq load_def load_body_eq field_def imported_def
      loaded_def js_or_def nullish_def initial_state_def linePoints_state_def
      linePoints_negative onChange_numCheckpoints_def)

end
